theory Spec2Isabelle
  imports Complex_Main "HOL-Library.Word"
begin

section \<open>JavaScript numbers\<close>

text \<open>
  The converter computes with JavaScript numbers.  They are embedded as exact reals
  together with the three non-finite values the program can produce (a division by zero
  gives an infinity or \<open>NaN\<close>, and \<open>Math.max\<close> of no arguments is \<open>-Infinity\<close>).
  Rounding of binary floating point and the sign of zero are not part of the embedding:
  every arithmetic operation on finite values is the exact one.
\<close>

datatype jsnum = Num real | PosInf | NegInf | NaN

fun jadd :: "jsnum \<Rightarrow> jsnum \<Rightarrow> jsnum" where
  "jadd (Num a) (Num b) = Num (a + b)"
| "jadd NaN _ = NaN"
| "jadd _ NaN = NaN"
| "jadd PosInf NegInf = NaN"
| "jadd NegInf PosInf = NaN"
| "jadd PosInf _ = PosInf"
| "jadd _ PosInf = PosInf"
| "jadd NegInf _ = NegInf"
| "jadd _ NegInf = NegInf"

fun jmul :: "jsnum \<Rightarrow> jsnum \<Rightarrow> jsnum" where
  "jmul (Num a) (Num b) = Num (a * b)"
| "jmul NaN _ = NaN"
| "jmul _ NaN = NaN"
| "jmul PosInf (Num b) = (if b = 0 then NaN else if 0 < b then PosInf else NegInf)"
| "jmul NegInf (Num b) = (if b = 0 then NaN else if 0 < b then NegInf else PosInf)"
| "jmul (Num a) PosInf = (if a = 0 then NaN else if 0 < a then PosInf else NegInf)"
| "jmul (Num a) NegInf = (if a = 0 then NaN else if 0 < a then NegInf else PosInf)"
| "jmul PosInf PosInf = PosInf"
| "jmul NegInf NegInf = PosInf"
| "jmul PosInf NegInf = NegInf"
| "jmul NegInf PosInf = NegInf"

fun jdiv :: "jsnum \<Rightarrow> jsnum \<Rightarrow> jsnum" where
  "jdiv (Num a) (Num b) =
     (if b \<noteq> 0 then Num (a / b)
      else if a = 0 then NaN
      else if 0 < a then PosInf else NegInf)"
| "jdiv NaN _ = NaN"
| "jdiv _ NaN = NaN"
| "jdiv (Num a) PosInf = Num 0"
| "jdiv (Num a) NegInf = Num 0"
| "jdiv PosInf (Num b) = (if 0 \<le> b then PosInf else NegInf)"
| "jdiv NegInf (Num b) = (if 0 \<le> b then NegInf else PosInf)"
| "jdiv PosInf _ = NaN"
| "jdiv NegInf _ = NaN"

text \<open>\<open>Math.floor\<close> and \<open>Math.round\<close> (round half up) leave non-finite values alone.\<close>

fun jfloor :: "jsnum \<Rightarrow> jsnum" where
  "jfloor (Num a) = Num (of_int \<lfloor>a\<rfloor>)"
| "jfloor v = v"

fun jround :: "jsnum \<Rightarrow> jsnum" where
  "jround (Num a) = Num (of_int \<lfloor>a + 1 / 2\<rfloor>)"
| "jround v = v"

text \<open>\<open>Math.max(...xs)\<close>: \<open>-Infinity\<close> for no argument, \<open>NaN\<close> as soon as one argument is.\<close>

fun jmax2 :: "jsnum \<Rightarrow> jsnum \<Rightarrow> jsnum" where
  "jmax2 (Num a) (Num b) = Num (max a b)"
| "jmax2 NaN _ = NaN"
| "jmax2 _ NaN = NaN"
| "jmax2 PosInf _ = PosInf"
| "jmax2 _ PosInf = PosInf"
| "jmax2 NegInf v = v"
| "jmax2 v NegInf = v"

definition Math_max :: "jsnum list \<Rightarrow> jsnum" where
  "Math_max xs = fold (\<lambda>x m. jmax2 m x) xs NegInf"

section \<open>Strings, errors, loops and arrays\<close>

text \<open>
  A JavaScript string is a sequence of UTF-16 code units.  Indexing a string with a number
  gives the one-unit string at that position when the number is an integer within the
  string, and \<open>undefined\<close> (here \<open>None\<close>) otherwise.
\<close>

type_synonym jsstring = "16 word list"

definition SPACE :: "16 word" where
  "SPACE = 32"

definition charAt :: "jsstring \<Rightarrow> jsnum \<Rightarrow> jsstring option" where
  "charAt s i =
     (case i of
        Num r \<Rightarrow>
          (if r = of_int \<lfloor>r\<rfloor> \<and> 0 \<le> r \<and> r < real (length s)
           then Some [s ! nat \<lfloor>r\<rfloor>] else None)
      | _ \<Rightarrow> None)"

datatype error = TypeError | LoadError

text \<open>
  \<open>for (i = lo; i < hi; i++) body\<close> over a state, and the assignment \<open>a[y][x] = v\<close>.
  A bound such as \<open>height - 2\<close> is negative in the source when the field is small and the
  loop then does not run; truncated subtraction on \<open>nat\<close> gives the same empty range.
\<close>

definition for_range :: "nat \<Rightarrow> nat \<Rightarrow> (nat \<Rightarrow> 's \<Rightarrow> 's) \<Rightarrow> 's \<Rightarrow> 's" where
  "for_range lo hi body s = fold body [lo..<hi] s"

definition set2 :: "'a list list \<Rightarrow> nat \<Rightarrow> nat \<Rightarrow> 'a \<Rightarrow> 'a list list" where
  "set2 a y x v = a[y := (a ! y)[x := v]]"

text \<open>A field of \<open>h\<close> rows of \<open>w\<close> samples each.\<close>

definition rect :: "nat \<Rightarrow> nat \<Rightarrow> 'a list list \<Rightarrow> bool" where
  "rect h w a = (length a = h \<and> list_all (\<lambda>r. length r = w) a)"

section \<open>Images and options\<close>

text \<open>
  A decoded image as \<open>getImageData\<close> returns it: its dimensions and the RGBA bytes, row by
  row, four per pixel.
\<close>

record image =
  width :: nat
  height :: nat
  pixels :: "8 word list"

definition wf_image :: "image \<Rightarrow> bool" where
  "wf_image img = (length (pixels img) = 4 * (width img * height img))"

text \<open>The options that the conversion of a frame reads.\<close>

record options =
  outputWidth :: nat
  outputHeight :: nat
  charSet :: jsstring
  preserveAspectRatio :: bool

definition luma :: "8 word \<Rightarrow> 8 word \<Rightarrow> 8 word \<Rightarrow> real" where
  "luma r g b = 0.299 * real (unat r) + 0.587 * real (unat g) + 0.114 * real (unat b)"

definition extremePixel :: "8 word \<Rightarrow> 8 word \<Rightarrow> 8 word \<Rightarrow> bool" where
  "extremePixel r g b = ((r = 0 \<and> g = 0 \<and> b = 0) \<or> (r = 255 \<and> g = 255 \<and> b = 255))"

section \<open>Smoothing filter (\<open>gaussianBlur\<close>)\<close>

definition kernel :: "real list list" where
  "kernel =
     [[1, 4, 6, 4, 1],
      [4, 16, 24, 16, 4],
      [6, 24, 36, 24, 6],
      [4, 16, 24, 16, 4],
      [1, 4, 6, 4, 1]]"

definition kernelSum :: real where
  "kernelSum = 256"

text \<open>The two inner loops over \<open>ky\<close> and \<open>kx\<close> that accumulate \<open>sum\<close>.\<close>

definition blurSum :: "real list list \<Rightarrow> nat \<Rightarrow> nat \<Rightarrow> real" where
  "blurSum data y x =
     for_range 0 5 (\<lambda>ky. for_range 0 5 (\<lambda>kx sum.
       sum + data ! (y + ky - 2) ! (x + kx - 2) * kernel ! ky ! kx)) 0"

text \<open>
  \<open>data[0].length\<close> throws a \<open>TypeError\<close> when the field has no row.  The result starts as
  a new field of zeros; the loops write the samples from 2 to \<open>height - 3\<close> and 2 to
  \<open>width - 3\<close>.  The converter passes rectangular fields only (predicate \<open>rect\<close>), for
  which every read \<open>data[y + ky - 2][x + kx - 2]\<close> of the loops is inside the field.
\<close>

definition gaussianBlur :: "real list list \<Rightarrow> error + real list list" where
  "gaussianBlur data =
     (case data of
        [] \<Rightarrow> Inl TypeError
      | row0 # _ \<Rightarrow>
          let h = length data;
              w = length row0;
              result = replicate h (replicate w 0)
          in Inr (for_range 2 (h - 2) (\<lambda>y. for_range 2 (w - 2) (\<lambda>x result.
                    set2 result y x (blurSum data y x / kernelSum))) result))"

section \<open>Edge strength (\<open>cannyEdgeDetection\<close>)\<close>

definition sobelX :: "real list list" where
  "sobelX = [[-1, 0, 1], [-2, 0, 2], [-1, 0, 1]]"

definition sobelY :: "real list list" where
  "sobelY = [[-1, -2, -1], [0, 0, 0], [1, 2, 1]]"

definition gradient :: "real list list \<Rightarrow> nat \<Rightarrow> nat \<Rightarrow> real \<times> real" where
  "gradient data y x =
     for_range 0 3 (\<lambda>ky. for_range 0 3 (\<lambda>kx (gx, gy).
       let val = data ! (y + ky - 1) ! (x + kx - 1)
       in (gx + val * sobelX ! ky ! kx, gy + val * sobelY ! ky ! kx))) (0, 0)"

definition magnitude :: "real list list \<Rightarrow> nat \<Rightarrow> nat \<Rightarrow> real" where
  "magnitude data y x = (case gradient data y x of (gx, gy) \<Rightarrow> sqrt (gx * gx + gy * gy))"

text \<open>The first pair of loops: gradient magnitudes of the samples off the 1-pixel border.\<close>

definition sobelField :: "real list list \<Rightarrow> nat \<Rightarrow> nat \<Rightarrow> jsnum list list" where
  "sobelField data h w =
     for_range 1 (h - 1) (\<lambda>y. for_range 1 (w - 1) (\<lambda>x result.
       set2 result y x (Num (magnitude data y x)))) (replicate h (replicate w (Num 0)))"

text \<open>The second pair of loops: every sample divided by the maximum and scaled by 255.\<close>

definition normalize :: "jsnum list list \<Rightarrow> nat \<Rightarrow> nat \<Rightarrow> jsnum list list" where
  "normalize result h w =
     (let maxMagnitude = Math_max (map Math_max result)
      in for_range 0 h (\<lambda>y. for_range 0 w (\<lambda>x result.
           set2 result y x (jmul (jdiv (result ! y ! x) maxMagnitude) (Num 255)))) result)"

definition cannyEdgeDetection :: "real list list \<Rightarrow> error + jsnum list list" where
  "cannyEdgeDetection data =
     (case data of
        [] \<Rightarrow> Inl TypeError
      | row0 # _ \<Rightarrow>
          let h = length data; w = length row0
          in Inr (normalize (sobelField data h w) h w))"

section \<open>Block sampling and glyph selection\<close>

text \<open>
  The local variables of the sampling loops.  The edge-aware converter (\<open>imageToAscii\<close>)
  accumulates \<open>edgeStrength\<close> and leaves the colour totals alone; the colour converter
  (\<open>imageToAsciiWithColor\<close>) accumulates the colour totals and has no \<open>edgeStrength\<close>.
\<close>

record sample =
  edgeStrength :: jsnum
  brightness :: real
  pixelCount :: nat
  isExtreme :: bool
  totalR :: nat
  totalG :: nat
  totalB :: nat

definition sample0 :: sample where
  "sample0 = \<lparr>edgeStrength = Num 0, brightness = 0, pixelCount = 0, isExtreme = True,
              totalR = 0, totalG = 0, totalB = 0\<rparr>"

text \<open>The body of the innermost loop at source pixel \<open>(px, py)\<close>, in each converter.\<close>

definition sampleEdge :: "image \<Rightarrow> jsnum list list \<Rightarrow> nat \<Rightarrow> nat \<Rightarrow> sample \<Rightarrow> sample" where
  "sampleEdge img edges py px acc =
     (let i = (py * width img + px) * 4;
          r = pixels img ! i;
          g = pixels img ! (i + 1);
          b = pixels img ! (i + 2)
      in acc\<lparr>edgeStrength := jadd (edgeStrength acc) (edges ! py ! px),
             brightness := brightness acc + luma r g b,
             isExtreme := (if \<not> extremePixel r g b then False else isExtreme acc),
             pixelCount := pixelCount acc + 1\<rparr>)"

definition sampleColor :: "image \<Rightarrow> nat \<Rightarrow> nat \<Rightarrow> sample \<Rightarrow> sample" where
  "sampleColor img py px acc =
     (let i = (py * width img + px) * 4;
          r = pixels img ! i;
          g = pixels img ! (i + 1);
          b = pixels img ! (i + 2)
      in acc\<lparr>totalR := totalR acc + unat r,
             totalG := totalG acc + unat g,
             totalB := totalB acc + unat b,
             brightness := brightness acc + luma r g b,
             isExtreme := (if \<not> extremePixel r g b then False else isExtreme acc),
             pixelCount := pixelCount acc + 1\<rparr>)"

text \<open>
  The loops over \<open>sy\<close> and \<open>sx\<close> of cell \<open>(x, y)\<close>.  Their guards
  \<open>sy < stepY && pixelY + sy < image.height\<close> bound \<open>sy\<close> by the smaller of the step and
  the rows left in the image, and likewise for \<open>sx\<close>.
\<close>

definition sampleBlock :: "(nat \<Rightarrow> nat \<Rightarrow> sample \<Rightarrow> sample) \<Rightarrow> image \<Rightarrow> nat \<Rightarrow> nat \<Rightarrow> nat \<Rightarrow> nat \<Rightarrow> sample" where
  "sampleBlock body img stepX stepY x y =
     (let pixelX = x * stepX;
          pixelY = y * stepY
      in for_range 0 (min stepY (height img - pixelY)) (\<lambda>sy.
           for_range 0 (min stepX (width img - pixelX)) (\<lambda>sx.
             body (pixelY + sy) (pixelX + sx))) sample0)"

definition meanBrightness :: "sample \<Rightarrow> real" where
  "meanBrightness s = (if pixelCount s > 0 then brightness s / real (pixelCount s) else 0)"

definition meanEdge :: "sample \<Rightarrow> jsnum" where
  "meanEdge s = (if pixelCount s > 0 then jdiv (edgeStrength s) (Num (real (pixelCount s))) else Num 0)"

definition suppressed :: "sample \<Rightarrow> bool" where
  "suppressed s = (isExtreme s \<or> meanBrightness s < 5 \<or> meanBrightness s > 250)"

text \<open>The glyph index of the edge-aware converter and of the colour converter.\<close>

definition combinedCharIndex :: "jsstring \<Rightarrow> jsnum \<Rightarrow> real \<Rightarrow> jsnum" where
  "combinedCharIndex cs edge bright =
     (let combined = jdiv (jadd (jmul edge (Num 0.7)) (Num (bright * 0.3))) (Num 255);
          adjustedRange = int (length cs) - 3
      in jadd (jfloor (jmul combined (Num (of_int adjustedRange)))) (Num 1))"

definition brightnessCharIndex :: "jsstring \<Rightarrow> real \<Rightarrow> int" where
  "brightnessCharIndex cs bright = \<lfloor>bright / 255 * of_int (int (length cs) - 2)\<rfloor> + 1"

definition asciiCell :: "jsstring \<Rightarrow> image \<Rightarrow> jsnum list list \<Rightarrow> nat \<Rightarrow> nat \<Rightarrow> nat \<Rightarrow> nat \<Rightarrow> jsstring option" where
  "asciiCell cs img edges stepX stepY x y =
     (let s = sampleBlock (sampleEdge img edges) img stepX stepY x y
      in if suppressed s then Some [SPACE]
         else charAt cs (combinedCharIndex cs (meanEdge s) (meanBrightness s)))"

type_synonym rgb = "jsnum \<times> jsnum \<times> jsnum"

definition averageColor :: "sample \<Rightarrow> rgb" where
  "averageColor s =
     (jround (jdiv (Num (real (totalR s))) (Num (real (pixelCount s)))),
      jround (jdiv (Num (real (totalG s))) (Num (real (pixelCount s)))),
      jround (jdiv (Num (real (totalB s))) (Num (real (pixelCount s)))))"

definition colorCell :: "jsstring \<Rightarrow> image \<Rightarrow> nat \<Rightarrow> nat \<Rightarrow> nat \<Rightarrow> nat \<Rightarrow> jsstring option \<times> rgb" where
  "colorCell cs img stepX stepY x y =
     (let s = sampleBlock (sampleColor img) img stepX stepY x y
      in (if suppressed s then Some [SPACE]
          else charAt cs (Num (of_int (brightnessCharIndex cs (meanBrightness s)))),
          averageColor s))"

section \<open>The two converters\<close>

text \<open>The luminance field that \<open>imageToAscii\<close> builds first, one sample per pixel.\<close>

definition grayscale :: "image \<Rightarrow> real list list" where
  "grayscale img =
     for_range 0 (height img) (\<lambda>y. for_range 0 (width img) (\<lambda>x gray.
       let i = (y * width img + x) * 4;
           r = pixels img ! i;
           g = pixels img ! (i + 1);
           b = pixels img ! (i + 2)
       in set2 gray y x (luma r g b))) (replicate (height img) (replicate (width img) 0))"

text \<open>
  \<open>imageToAscii(image, width, height)\<close> of the edge-aware converter.  The steps are
  \<open>Math.floor(image.width / width)\<close>; for a grid of width 0 the source's step is infinite,
  but then no cell is computed, so the value of the step is never used.  The glyph grid
  starts as \<open>height\<close> rows of \<open>width\<close> empty strings.
\<close>

definition imageToAscii :: "options \<Rightarrow> image \<Rightarrow> nat \<Rightarrow> nat \<Rightarrow> error + jsstring option list list" where
  "imageToAscii opts img w h =
     (let stepX = width img div w;
          stepY = height img div h
      in case gaussianBlur (grayscale img) of
           Inl e \<Rightarrow> Inl e
         | Inr blurred \<Rightarrow>
             (case cannyEdgeDetection blurred of
                Inl e \<Rightarrow> Inl e
              | Inr edges \<Rightarrow>
                  Inr (for_range 0 h (\<lambda>y. for_range 0 w (\<lambda>x ascii.
                         set2 ascii y x (asciiCell (charSet opts) img edges stepX stepY x y)))
                       (replicate h (replicate w (Some []))))))"

text \<open>\<open>imageToAsciiWithColor(image, width, height)\<close> of the colour converter.\<close>

definition imageToAsciiWithColor :: "options \<Rightarrow> image \<Rightarrow> nat \<Rightarrow> nat \<Rightarrow> jsstring option list list \<times> rgb list list" where
  "imageToAsciiWithColor opts img w h =
     (let stepX = width img div w;
          stepY = height img div h
      in for_range 0 h (\<lambda>y. for_range 0 w (\<lambda>x (ascii, colors).
           let cell = colorCell (charSet opts) img stepX stepY x y
           in (set2 ascii y x (fst cell), set2 colors y x (snd cell))))
         (replicate h (replicate w (Some [])), replicate h (replicate w (Num 0, Num 0, Num 0))))"

section \<open>Grid dimensions and the frame loop\<close>

text \<open>
  The dimension computation at the head of \<open>convertImageToAscii\<close>, as (width, height).
  A loaded image has positive dimensions, where the division is the source's.
\<close>

definition asciiDimensions :: "options \<Rightarrow> image \<Rightarrow> int \<times> int" where
  "asciiDimensions opts img =
     (let w0 = int (outputWidth opts);
          h0 = int (outputHeight opts)
      in if preserveAspectRatio opts then
           (let aspectRatio = real (width img) / real (height img);
                h1 = \<lfloor>of_int w0 / aspectRatio / 2\<rfloor>
            in if h1 > h0 then (\<lfloor>of_int h0 * aspectRatio * 2\<rfloor>, h0) else (w0, h1))
         else (w0, h0))"

text \<open>
  \<open>convertImageToAscii(inputPath, outputPath)\<close> of the colour converter: \<open>loadImage\<close>
  rejects for a file it cannot read or decode, and the exception leaves the function
  before anything is written.  The written PNG is represented by what the drawing loop
  draws: the glyph grid and its colours.
\<close>

type_synonym png = "jsstring option list list \<times> rgb list list"

definition convertImageToAscii :: "('p \<Rightarrow> error + image) \<Rightarrow> options \<Rightarrow> 'p \<Rightarrow> error + png" where
  "convertImageToAscii loadImage opts inputPath =
     (case loadImage inputPath of
        Inl e \<Rightarrow> Inl e
      | Inr img \<Rightarrow>
          (case asciiDimensions opts img of
             (w, h) \<Rightarrow> Inr (imageToAsciiWithColor opts img (nat w) (nat h))))"

text \<open>
  The loop of \<open>convertFramesToAscii\<close> from frame \<open>i\<close> on, over the sorted frame files.
  The state is the directory of written frames, keyed by the index in the output name
  \<open>ascii-<i>.png\<close>.  The loop has no handler: an exception of one frame ends it.
\<close>

fun convertFrames :: "('p \<Rightarrow> error + image) \<Rightarrow> options \<Rightarrow> nat \<Rightarrow> 'p list \<Rightarrow> (nat \<rightharpoonup> png) \<Rightarrow> (nat \<rightharpoonup> png) \<times> (error + unit)" where
  "convertFrames loadImage opts i [] written = (written, Inr ())"
| "convertFrames loadImage opts i (frame # frames) written =
     (case convertImageToAscii loadImage opts frame of
        Inl e \<Rightarrow> (written, Inl e)
      | Inr out \<Rightarrow> convertFrames loadImage opts (i + 1) frames (written(i \<mapsto> out)))"

definition convertFramesToAscii :: "('p \<Rightarrow> error + image) \<Rightarrow> options \<Rightarrow> 'p list \<Rightarrow> (nat \<rightharpoonup> png) \<times> (error + unit)" where
  "convertFramesToAscii loadImage opts frames = convertFrames loadImage opts 0 frames Map.empty"

section \<open>Notions used in the statements\<close>



text \<open>A property of every pixel of an image, and the property of being the gray \<open>(v, v, v)\<close>.\<close>

definition allPixels :: "(8 word \<Rightarrow> 8 word \<Rightarrow> 8 word \<Rightarrow> bool) \<Rightarrow> image \<Rightarrow> bool" where
  "allPixels P img =
     list_all (\<lambda>k. P (pixels img ! (k * 4)) (pixels img ! (k * 4 + 1)) (pixels img ! (k * 4 + 2)))
       [0..<width img * height img]"


text \<open>
  What the first pair of loops of \<open>cannyEdgeDetection\<close> leaves at sample \<open>(i, j)\<close> of an
  \<open>h\<close> by \<open>w\<close> field: the gradient magnitude, and 0 on the 1-sample border.
\<close>

definition magAt :: "real list list \<Rightarrow> nat \<Rightarrow> nat \<Rightarrow> nat \<Rightarrow> nat \<Rightarrow> real" where
  "magAt f h w i j = (if 1 \<le> i \<and> i < h - 1 \<and> 1 \<le> j \<and> j < w - 1 then magnitude f i j else 0)"


section \<open>Loops that fill a field\<close>

lemma for_range_empty: "hi \<le> lo \<Longrightarrow> for_range lo hi body s = s"
  by (simp add: for_range_def)

lemma for_range_Suc: "lo \<le> hi \<Longrightarrow> for_range lo (Suc hi) body s = body hi (for_range lo hi body s)"
  by (simp add: for_range_def)



lemma rect_nth: "rect h w a \<Longrightarrow> i < h \<Longrightarrow> length (a ! i) = w"
  by (simp add: rect_def list_all_length)

lemma rect_length: "rect h w a \<Longrightarrow> length a = h"
  by (simp add: rect_def)

lemma rect_replicate: "rect h w (replicate h (replicate w v))"
  by (simp add: rect_def list_all_length)

lemma rect_map: "rect h w (map (\<lambda>i. map (f i) [0..<w]) [0..<h])"
  by (simp add: rect_def list_all_length)



lemma row_loop:
  assumes "y < length a" "x1 \<le> length (a ! y)"
  shows "for_range x0 x1 (\<lambda>x r. set2 r y x (g x (r ! y ! x))) a
       = a[y := map (\<lambda>j. if x0 \<le> j \<and> j < x1 then g j (a ! y ! j) else a ! y ! j) [0..<length (a ! y)]]"
  using assms
proof (induction x1)
  case 0
  then show ?case by (simp add: for_range_def map_nth)
next
  case (Suc x1)
  show ?case
  proof (cases "x0 \<le> x1")
    case False
    have "map (\<lambda>j. if x0 \<le> j \<and> j < Suc x1 then g j (a ! y ! j) else a ! y ! j) [0..<length (a ! y)] = a ! y"
      using False by (intro nth_equalityI) auto
    then show ?thesis using False by (simp add: for_range_empty)
  next
    case True
    have ih: "for_range x0 x1 (\<lambda>x r. set2 r y x (g x (r ! y ! x))) a
       = a[y := map (\<lambda>j. if x0 \<le> j \<and> j < x1 then g j (a ! y ! j) else a ! y ! j) [0..<length (a ! y)]]"
      using Suc by simp
    have "for_range x0 (Suc x1) (\<lambda>x r. set2 r y x (g x (r ! y ! x))) a
        = set2 (for_range x0 x1 (\<lambda>x r. set2 r y x (g x (r ! y ! x))) a) y x1
            (g x1 (for_range x0 x1 (\<lambda>x r. set2 r y x (g x (r ! y ! x))) a ! y ! x1))"
      using True by (simp add: for_range_Suc)
    also have "\<dots> = a[y := map (\<lambda>j. if x0 \<le> j \<and> j < Suc x1 then g j (a ! y ! j) else a ! y ! j) [0..<length (a ! y)]]"
      unfolding ih using Suc.prems True
      by (auto simp: set2_def intro!: arg_cong[where f="list_update a y"] nth_equalityI simp: nth_list_update)
    finally show ?thesis .
  qed
qed

lemma grid_loop:
  assumes "rect h w a" "y1 \<le> h" "x1 \<le> w"
  shows "for_range y0 y1 (\<lambda>y. for_range x0 x1 (\<lambda>x r. set2 r y x (g y x (r ! y ! x)))) a
       = map (\<lambda>i. map (\<lambda>j. if y0 \<le> i \<and> i < y1 \<and> x0 \<le> j \<and> j < x1 then g i j (a ! i ! j) else a ! i ! j) [0..<w]) [0..<h]"
  using assms
proof (induction y1)
  case 0
  then show ?case
    by (auto simp: for_range_empty rect_def list_all_length intro!: nth_equalityI)
next
  case (Suc y1)
  let ?F = "\<lambda>y1. map (\<lambda>i. map (\<lambda>j. if y0 \<le> i \<and> i < y1 \<and> x0 \<le> j \<and> j < x1 then g i j (a ! i ! j) else a ! i ! j) [0..<w]) [0..<h]"
  show ?case
  proof (cases "y0 \<le> y1")
    case False
    then show ?thesis using Suc.prems
      by (auto simp: for_range_empty rect_def list_all_length intro!: nth_equalityI)
  next
    case True
    have ih: "for_range y0 y1 (\<lambda>y. for_range x0 x1 (\<lambda>x r. set2 r y x (g y x (r ! y ! x)))) a = ?F y1"
      using Suc by simp
    have "for_range y0 (Suc y1) (\<lambda>y. for_range x0 x1 (\<lambda>x r. set2 r y x (g y x (r ! y ! x)))) a
        = for_range x0 x1 (\<lambda>x r. set2 r y1 x (g y1 x (r ! y1 ! x))) (?F y1)"
      using True by (simp add: for_range_Suc ih)
    also have "\<dots> = (?F y1)[y1 := map (\<lambda>j. if x0 \<le> j \<and> j < x1 then g y1 j (?F y1 ! y1 ! j) else ?F y1 ! y1 ! j) [0..<length (?F y1 ! y1)]]"
      using Suc.prems by (intro row_loop) auto
    also have "\<dots> = ?F (Suc y1)"
      using Suc.prems True
      by (auto intro!: nth_equalityI simp: nth_list_update less_Suc_eq)
    finally show ?thesis .
  qed
qed

text \<open>A pair of loops that fills a field of a constant with values that do not depend on it.\<close>

lemma grid_fill:
  assumes "y1 \<le> h" "x1 \<le> w"
  shows "for_range y0 y1 (\<lambda>y. for_range x0 x1 (\<lambda>x r. set2 r y x (g y x))) (replicate h (replicate w c))
       = map (\<lambda>i. map (\<lambda>j. if y0 \<le> i \<and> i < y1 \<and> x0 \<le> j \<and> j < x1 then g i j else c) [0..<w]) [0..<h]"
proof -
  have "for_range y0 y1 (\<lambda>y. for_range x0 x1 (\<lambda>x r. set2 r y x ((\<lambda>i j _. g i j) y x (r ! y ! x)))) (replicate h (replicate w c))
      = map (\<lambda>i. map (\<lambda>j. if y0 \<le> i \<and> i < y1 \<and> x0 \<le> j \<and> j < x1 then (\<lambda>i j _. g i j) i j (replicate h (replicate w c) ! i ! j)
                              else replicate h (replicate w c) ! i ! j) [0..<w]) [0..<h]"
    using assms by (intro grid_loop rect_replicate)
  then show ?thesis by (simp cong: map_cong)
qed

lemma gaussianBlur_rect:
  assumes "rect h w f" "0 < h"
  shows "gaussianBlur f = Inr (map (\<lambda>i. map (\<lambda>j.
           if 2 \<le> i \<and> i < h - 2 \<and> 2 \<le> j \<and> j < w - 2 then blurSum f i j / 256 else 0) [0..<w]) [0..<h])"
proof -
  obtain row0 rest where f: "f = row0 # rest"
    using assms by (cases f) (auto simp: rect_def)
  have w: "length row0 = w" using assms(1) f by (simp add: rect_def)
  have h: "length f = h" using assms(1) by (simp add: rect_def)
  show ?thesis
    unfolding gaussianBlur_def f list.case Let_def
    unfolding f[symmetric] h w kernelSum_def
    by (subst grid_fill) auto
qed

section \<open>Properties of the smoothing filter\<close>














section \<open>Grid dimensions\<close>



section \<open>The frame loop\<close>

lemma convertImageToAscii_Inl:
  "convertImageToAscii loadImage opts p = Inl e \<longleftrightarrow> loadImage p = Inl e"
  by (auto simp: convertImageToAscii_def split: sum.splits prod.splits)

lemma convertImageToAscii_Inr:
  "loadImage p = Inr img \<Longrightarrow>
   convertImageToAscii loadImage opts p =
     Inr (imageToAsciiWithColor opts img (nat (fst (asciiDimensions opts img))) (nat (snd (asciiDimensions opts img))))"
  by (simp add: convertImageToAscii_def split: prod.splits)

lemma convertFrames_abort:
  assumes "i < length frames" "loadImage (frames ! i) = Inl e"
    and "\<forall>j<i. \<exists>img. loadImage (frames ! j) = Inr img"
  shows "convertFrames loadImage opts k frames written =
           ((\<lambda>n. if k \<le> n \<and> n < k + i
                  then (case convertImageToAscii loadImage opts (frames ! (n - k)) of
                          Inr out \<Rightarrow> Some out | Inl _ \<Rightarrow> None)
                  else written n), Inl e)"
  using assms
proof (induction frames arbitrary: i k written)
  case Nil
  then show ?case by simp
next
  case (Cons f frames)
  show ?case
  proof (cases i)
    case 0
    then have "convertImageToAscii loadImage opts f = Inl e"
      using Cons.prems by (simp add: convertImageToAscii_Inl)
    then show ?thesis using 0 by (auto simp: fun_eq_iff)
  next
    case (Suc i')
    obtain img where img: "loadImage f = Inr img"
      using Cons.prems(3) Suc by fastforce
    obtain out where out: "convertImageToAscii loadImage opts f = Inr out"
      using convertImageToAscii_Inr[of loadImage f img opts] img by blast
    have ih: "convertFrames loadImage opts (k + 1) frames (written(k \<mapsto> out)) =
           ((\<lambda>n. if k + 1 \<le> n \<and> n < k + 1 + i'
                  then (case convertImageToAscii loadImage opts (frames ! (n - (k + 1))) of
                          Inr out \<Rightarrow> Some out | Inl _ \<Rightarrow> None)
                  else (written(k \<mapsto> out)) n), Inl e)"
    proof (rule Cons.IH)
      show "i' < length frames" using Cons.prems(1) Suc by simp
      show "loadImage (frames ! i') = Inl e" using Cons.prems(2) Suc by simp
      show "\<forall>j<i'. \<exists>img. loadImage (frames ! j) = Inr img"
        using Cons.prems(3) Suc by (metis Suc_less_eq nth_Cons_Suc)
    qed
    have "(\<lambda>n. if k + 1 \<le> n \<and> n < k + 1 + i'
                  then (case convertImageToAscii loadImage opts (frames ! (n - (k + 1))) of
                          Inr out \<Rightarrow> Some out | Inl _ \<Rightarrow> None)
                  else (written(k \<mapsto> out)) n)
        = (\<lambda>n. if k \<le> n \<and> n < k + i
                  then (case convertImageToAscii loadImage opts ((f # frames) ! (n - k)) of
                          Inr out \<Rightarrow> Some out | Inl _ \<Rightarrow> None)
                  else written n)"
    proof (rule ext)
      fix n
      show "(if k + 1 \<le> n \<and> n < k + 1 + i'
                  then (case convertImageToAscii loadImage opts (frames ! (n - (k + 1))) of
                          Inr out \<Rightarrow> Some out | Inl _ \<Rightarrow> None)
                  else (written(k \<mapsto> out)) n)
        = (if k \<le> n \<and> n < k + i
                  then (case convertImageToAscii loadImage opts ((f # frames) ! (n - k)) of
                          Inr out \<Rightarrow> Some out | Inl _ \<Rightarrow> None)
                  else written n)"
      proof (cases "n = k")
        case True
        then show ?thesis using Suc out by simp
      next
        case False
        then show ?thesis using Suc by (auto simp: nth_Cons' Suc_diff_le)
      qed
    qed
    then show ?thesis using out ih by simp
  qed
qed

text \<open>
  Claim C7, as amended.  The frame loop has no handler.  When frame \<open>i\<close> is the first
  whose file cannot be loaded, the loop ends with that frame's error: the frames before
  \<open>i\<close> have been written, and nothing is written for frame \<open>i\<close> or for any frame
  after it.
\<close>

theorem C7_bad_frame_aborts:
  assumes "i < length frames" "loadImage (frames ! i) = Inl e"
    and "\<forall>j<i. \<exists>img. loadImage (frames ! j) = Inr img"
  shows "snd (convertFramesToAscii loadImage opts frames) = Inl e \<and>
         (\<forall>n. i \<le> n \<longrightarrow> fst (convertFramesToAscii loadImage opts frames) n = None) \<and>
         (\<forall>n<i. \<exists>out. convertImageToAscii loadImage opts (frames ! n) = Inr out \<and>
                  fst (convertFramesToAscii loadImage opts frames) n = Some out)"
proof -
  have eq: "convertFramesToAscii loadImage opts frames =
           ((\<lambda>n. if 0 \<le> n \<and> n < 0 + i
                  then (case convertImageToAscii loadImage opts (frames ! (n - 0)) of
                          Inr out \<Rightarrow> Some out | Inl _ \<Rightarrow> None)
                  else Map.empty n), Inl e)"
    unfolding convertFramesToAscii_def using assms by (rule convertFrames_abort)
  have ok: "\<exists>out. convertImageToAscii loadImage opts (frames ! n) = Inr out" if lt: "n < i" for n
  proof -
    obtain img where "loadImage (frames ! n) = Inr img" using assms(3) lt by blast
    then show ?thesis using convertImageToAscii_Inr[of loadImage "frames ! n" img opts] by blast
  qed
  show ?thesis unfolding eq using ok by fastforce
qed

theorem C7_bad_frame_aborts_witness:
  "snd (convertFramesToAscii id \<lparr>outputWidth = 1, outputHeight = 1, charSet = [64, 35, 32], preserveAspectRatio = False\<rparr>
          [Inr \<lparr>width = 1, height = 1, pixels = [128, 128, 128, 255]\<rparr>, Inl LoadError,
           Inr \<lparr>width = 1, height = 1, pixels = [128, 128, 128, 255]\<rparr>]) = Inl LoadError \<and>
   fst (convertFramesToAscii id \<lparr>outputWidth = 1, outputHeight = 1, charSet = [64, 35, 32], preserveAspectRatio = False\<rparr>
          [Inr \<lparr>width = 1, height = 1, pixels = [128, 128, 128, 255]\<rparr>, Inl LoadError,
           Inr \<lparr>width = 1, height = 1, pixels = [128, 128, 128, 255]\<rparr>]) 2 = None \<and>
   fst (convertFramesToAscii id \<lparr>outputWidth = 1, outputHeight = 1, charSet = [64, 35, 32], preserveAspectRatio = False\<rparr>
          [Inr \<lparr>width = 1, height = 1, pixels = [128, 128, 128, 255]\<rparr>, Inl LoadError,
           Inr \<lparr>width = 1, height = 1, pixels = [128, 128, 128, 255]\<rparr>]) 0 \<noteq> None"
  using C7_bad_frame_aborts[of 1 "[Inr \<lparr>width = 1, height = 1, pixels = [128, 128, 128, 255]\<rparr>, Inl LoadError,
           Inr \<lparr>width = 1, height = 1, pixels = [128, 128, 128, 255]\<rparr>]" id LoadError
      "\<lparr>outputWidth = 1, outputHeight = 1, charSet = [64, 35, 32], preserveAspectRatio = False\<rparr>"]
  by force

text \<open>
  The claim as it was written fails on a batch whose first frame is unreadable: the
  second frame, which is readable, is never converted.
\<close>

theorem C7_batch_counterexample:
  "convertFramesToAscii id \<lparr>outputWidth = 1, outputHeight = 1, charSet = [64, 35, 32], preserveAspectRatio = False\<rparr>
     [Inl LoadError, Inr \<lparr>width = 1, height = 1, pixels = [128, 128, 128, 255]\<rparr>]
   = (Map.empty, Inl LoadError)"
  by (simp add: convertFramesToAscii_def convertImageToAscii_def)

section \<open>Block sampling\<close>

lemma for_range_inv:
  assumes "P s" "\<And>i s. lo \<le> i \<Longrightarrow> i < hi \<Longrightarrow> P s \<Longrightarrow> P (body i s)"
  shows "P (for_range lo hi body s)"
  using assms(2)
proof (induction hi)
  case 0
  then show ?case using assms(1) by (simp add: for_range_empty)
next
  case (Suc hi)
  show ?case
  proof (cases "lo \<le> hi")
    case True
    have "P (for_range lo hi body s)" using Suc by simp
    then show ?thesis using True Suc.prems by (simp add: for_range_Suc)
  next
    case False
    then show ?thesis using assms(1) by (simp add: for_range_empty)
  qed
qed


lemma for_range_pair:
  "for_range lo hi (\<lambda>i (a, c). (f i a, g i c)) (a0, c0) = (for_range lo hi f a0, for_range lo hi g c0)"
proof (induction hi)
  case 0
  then show ?case by (simp add: for_range_empty)
next
  case (Suc hi)
  then show ?case
    by (cases "lo \<le> hi") (simp_all add: for_range_Suc for_range_empty)
qed

lemma for_range_pair_fun:
  "for_range lo hi (\<lambda>i (a, c). (f i a, g i c)) = (\<lambda>(a0, c0). (for_range lo hi f a0, for_range lo hi g c0))"
  by (rule ext) (simp add: for_range_pair split: prod.splits)

lemma sampleBlock_inv:
  assumes "P sample0"
    and "\<And>py px acc. y * stepY \<le> py \<Longrightarrow> py < y * stepY + stepY \<Longrightarrow> py < height img \<Longrightarrow>
           x * stepX \<le> px \<Longrightarrow> px < x * stepX + stepX \<Longrightarrow> px < width img \<Longrightarrow>
           P acc \<Longrightarrow> P (body py px acc)"
  shows "P (sampleBlock body img stepX stepY x y)"
  unfolding sampleBlock_def Let_def
proof (rule for_range_inv[where P = P])
  show "P sample0" by (rule assms(1))
next
  fix sy s
  assume sy: "0 \<le> sy" "sy < min stepY (height img - y * stepY)" and s: "P s"
  show "P (for_range 0 (min stepX (width img - x * stepX)) (\<lambda>sx. body (y * stepY + sy) (x * stepX + sx)) s)"
  proof (rule for_range_inv[where P = P])
    show "P s" by (rule s)
  next
    fix sx t
    assume sx: "0 \<le> sx" "sx < min stepX (width img - x * stepX)" and t: "P t"
    show "P (body (y * stepY + sy) (x * stepX + sx) t)"
      using sy sx t by (intro assms(2)) auto
  qed
qed



lemma allPixels_at:
  assumes "allPixels P img" "py < height img" "px < width img"
  shows "P (pixels img ! ((py * width img + px) * 4))
           (pixels img ! ((py * width img + px) * 4 + 1))
           (pixels img ! ((py * width img + px) * 4 + 2))"
proof -
  have "py * width img + px < Suc py * width img" using assms(3) by simp
  also have "\<dots> \<le> height img * width img"
    using assms(2) by (intro mult_le_mono1) simp
  finally have lt: "py * width img + px < width img * height img" by (simp add: mult.commute)
  have "list_all (\<lambda>k. P (pixels img ! (k * 4)) (pixels img ! (k * 4 + 1)) (pixels img ! (k * 4 + 2)))
          [0..<width img * height img]"
    using assms(1) by (simp only: allPixels_def)
  then have "\<forall>k \<in> set [0..<width img * height img].
          P (pixels img ! (k * 4)) (pixels img ! (k * 4 + 1)) (pixels img ! (k * 4 + 2))"
    by (simp only: list_all_iff)
  moreover have "py * width img + px \<in> set [0..<width img * height img]"
    using lt by simp
  ultimately show ?thesis by (rule bspec)
qed

section \<open>The converters as grids of cells\<close>

lemma grayscale_eq:
  "grayscale img = map (\<lambda>y. map (\<lambda>x.
      luma (pixels img ! ((y * width img + x) * 4)) (pixels img ! ((y * width img + x) * 4 + 1))
           (pixels img ! ((y * width img + x) * 4 + 2))) [0..<width img]) [0..<height img]"
  unfolding grayscale_def Let_def by (subst grid_fill) auto

lemma grayscale_rect: "rect (height img) (width img) (grayscale img)"
  unfolding grayscale_eq by (rule rect_map)

lemma gaussianBlur_result_rect:
  assumes "rect h w f" "0 < h"
  shows "\<exists>out. gaussianBlur f = Inr out \<and> rect h w out"
proof -
  let ?out = "map (\<lambda>i. map (\<lambda>j.
           if 2 \<le> i \<and> i < h - 2 \<and> 2 \<le> j \<and> j < w - 2 then blurSum f i j / 256 else 0) [0..<w]) [0..<h]"
  have "gaussianBlur f = Inr ?out" by (rule gaussianBlur_rect[OF assms])
  moreover have "rect h w ?out" by (rule rect_map)
  ultimately show ?thesis by blast
qed

lemma cannyEdgeDetection_rect:
  assumes "rect h w f" "0 < h"
  shows "cannyEdgeDetection f = Inr (normalize (sobelField f h w) h w)"
proof -
  obtain row0 rest where f: "f = row0 # rest"
    using assms by (cases f) (auto simp: rect_def)
  have w: "length row0 = w" using assms(1) f by (simp add: rect_def)
  have h: "length f = h" using assms(1) by (simp add: rect_def)
  show ?thesis
    unfolding cannyEdgeDetection_def f list.case Let_def
    unfolding f[symmetric] h w ..
qed

lemma imageToAscii_eq:
  assumes "0 < height img"
  shows "\<exists>blurred edges. gaussianBlur (grayscale img) = Inr blurred \<and> rect (height img) (width img) blurred \<and>
           cannyEdgeDetection blurred = Inr edges \<and>
           imageToAscii opts img w h =
             Inr (map (\<lambda>y. map (\<lambda>x. asciiCell (charSet opts) img edges (width img div w) (height img div h) x y)
                    [0..<w]) [0..<h])"
proof -
  obtain blurred where b: "gaussianBlur (grayscale img) = Inr blurred" "rect (height img) (width img) blurred"
    using gaussianBlur_result_rect[OF grayscale_rect assms] by blast
  have e: "cannyEdgeDetection blurred = Inr (normalize (sobelField blurred (height img) (width img)) (height img) (width img))"
    using b(2) assms by (rule cannyEdgeDetection_rect)
  have "imageToAscii opts img w h =
             Inr (map (\<lambda>y. map (\<lambda>x. asciiCell (charSet opts) img
                     (normalize (sobelField blurred (height img) (width img)) (height img) (width img))
                     (width img div w) (height img div h) x y)
                    [0..<w]) [0..<h])"
    unfolding imageToAscii_def Let_def b(1) e sum.case
    by (subst grid_fill) auto
  then show ?thesis using b e by blast
qed

lemma imageToAsciiWithColor_eq:
  "imageToAsciiWithColor opts img w h =
     (map (\<lambda>y. map (\<lambda>x. fst (colorCell (charSet opts) img (width img div w) (height img div h) x y)) [0..<w]) [0..<h],
      map (\<lambda>y. map (\<lambda>x. snd (colorCell (charSet opts) img (width img div w) (height img div h) x y)) [0..<w]) [0..<h])"
  unfolding imageToAsciiWithColor_def Let_def for_range_pair_fun for_range_pair
  by (simp add: grid_fill)

lemma sampleColor_simps [simp]:
  "isExtreme (sampleColor img py px acc) =
     (extremePixel (pixels img ! ((py * width img + px) * 4)) (pixels img ! ((py * width img + px) * 4 + 1))
        (pixels img ! ((py * width img + px) * 4 + 2)) \<and> isExtreme acc)"
  "brightness (sampleColor img py px acc) =
     brightness acc + luma (pixels img ! ((py * width img + px) * 4)) (pixels img ! ((py * width img + px) * 4 + 1))
        (pixels img ! ((py * width img + px) * 4 + 2))"
  "pixelCount (sampleColor img py px acc) = pixelCount acc + 1"
  "totalR (sampleColor img py px acc) = totalR acc + unat (pixels img ! ((py * width img + px) * 4))"
  "totalG (sampleColor img py px acc) = totalG acc + unat (pixels img ! ((py * width img + px) * 4 + 1))"
  "totalB (sampleColor img py px acc) = totalB acc + unat (pixels img ! ((py * width img + px) * 4 + 2))"
  by (simp_all add: sampleColor_def Let_def)

lemma sampleEdge_simps [simp]:
  "isExtreme (sampleEdge img edges py px acc) =
     (extremePixel (pixels img ! ((py * width img + px) * 4)) (pixels img ! ((py * width img + px) * 4 + 1))
        (pixels img ! ((py * width img + px) * 4 + 2)) \<and> isExtreme acc)"
  "brightness (sampleEdge img edges py px acc) =
     brightness acc + luma (pixels img ! ((py * width img + px) * 4)) (pixels img ! ((py * width img + px) * 4 + 1))
        (pixels img ! ((py * width img + px) * 4 + 2))"
  "pixelCount (sampleEdge img edges py px acc) = pixelCount acc + 1"
  "edgeStrength (sampleEdge img edges py px acc) = jadd (edgeStrength acc) (edges ! py ! px)"
  by (simp_all add: sampleEdge_def Let_def)

lemma extreme_block:
  assumes "allPixels extremePixel img"
    and "\<And>py px (acc :: sample). isExtreme (body py px acc) =
           (extremePixel (pixels img ! ((py * width img + px) * 4)) (pixels img ! ((py * width img + px) * 4 + 1))
              (pixels img ! ((py * width img + px) * 4 + 2)) \<and> isExtreme acc)"
  shows "isExtreme (sampleBlock body img stepX stepY x y)"
proof (rule sampleBlock_inv[where P = isExtreme])
  show "isExtreme sample0" by (simp add: sample0_def)
next
  fix py px and acc :: sample
  assume "py < height img" "px < width img" "isExtreme acc"
  then show "isExtreme (body py px acc)"
    using allPixels_at[OF assms(1)] assms(2) by simp
qed

text \<open>
  Claim C5.  When every pixel of a raster is pure black or pure white, both converters
  return a grid of blank glyphs, for every grid size and every character set.  The
  witness is the 4 by 4 black image converted to a 2 by 2 grid.
\<close>

theorem C5_extreme_raster_blank:
  assumes "wf_image img" "0 < width img" "0 < height img" "allPixels extremePixel img"
  shows "imageToAscii opts img w h = Inr (replicate h (replicate w (Some [SPACE]))) \<and>
         fst (imageToAsciiWithColor opts img w h) = replicate h (replicate w (Some [SPACE]))"
proof -
  have edge: "asciiCell cs img edges stepX stepY x y = Some [SPACE]" for cs edges stepX stepY x y
    using extreme_block[OF assms(4), of "sampleEdge img edges"]
    by (simp add: asciiCell_def suppressed_def)
  have col: "fst (colorCell cs img stepX stepY x y) = Some [SPACE]" for cs stepX stepY x y
    using extreme_block[OF assms(4), of "sampleColor img"]
    by (simp add: colorCell_def suppressed_def)
  have rep: "map (\<lambda>y. map (\<lambda>x. c) [0..<w]) [0..<h] = replicate h (replicate w c)" for c :: "jsstring option"
    by (simp add: map_replicate_const)
  obtain blurred edges where
    "imageToAscii opts img w h =
       Inr (map (\<lambda>y. map (\<lambda>x. asciiCell (charSet opts) img edges (width img div w) (height img div h) x y)
                    [0..<w]) [0..<h])"
    using imageToAscii_eq[OF assms(3)] by blast
  then have "imageToAscii opts img w h = Inr (replicate h (replicate w (Some [SPACE])))"
    by (simp add: edge rep)
  moreover have "fst (imageToAsciiWithColor opts img w h) = replicate h (replicate w (Some [SPACE]))"
    by (simp add: imageToAsciiWithColor_eq col rep)
  ultimately show ?thesis by blast
qed

theorem C5_extreme_raster_blank_witness:
  "imageToAscii \<lparr>outputWidth = 2, outputHeight = 2, charSet = [64, 35, 46, 32], preserveAspectRatio = False\<rparr>
     \<lparr>width = 4, height = 4,
      pixels = [0, 0, 0, 255, 0, 0, 0, 255, 0, 0, 0, 255, 0, 0, 0, 255,
                0, 0, 0, 255, 0, 0, 0, 255, 0, 0, 0, 255, 0, 0, 0, 255,
                0, 0, 0, 255, 0, 0, 0, 255, 0, 0, 0, 255, 0, 0, 0, 255,
                0, 0, 0, 255, 0, 0, 0, 255, 0, 0, 0, 255, 0, 0, 0, 255]\<rparr> 2 2
     = Inr [[Some [SPACE], Some [SPACE]], [Some [SPACE], Some [SPACE]]] \<and>
   fst (imageToAsciiWithColor \<lparr>outputWidth = 2, outputHeight = 2, charSet = [64, 35, 46, 32], preserveAspectRatio = False\<rparr>
     \<lparr>width = 4, height = 4,
      pixels = [0, 0, 0, 255, 0, 0, 0, 255, 0, 0, 0, 255, 0, 0, 0, 255,
                0, 0, 0, 255, 0, 0, 0, 255, 0, 0, 0, 255, 0, 0, 0, 255,
                0, 0, 0, 255, 0, 0, 0, 255, 0, 0, 0, 255, 0, 0, 0, 255,
                0, 0, 0, 255, 0, 0, 0, 255, 0, 0, 0, 255, 0, 0, 0, 255]\<rparr> 2 2)
     = [[Some [SPACE], Some [SPACE]], [Some [SPACE], Some [SPACE]]]"
proof -
  let ?img = "\<lparr>width = 4, height = 4,
      pixels = [0, 0, 0, 255, 0, 0, 0, 255, 0, 0, 0, 255, 0, 0, 0, 255,
                0, 0, 0, 255, 0, 0, 0, 255, 0, 0, 0, 255, 0, 0, 0, 255,
                0, 0, 0, 255, 0, 0, 0, 255, 0, 0, 0, 255, 0, 0, 0, 255,
                0, 0, 0, 255, 0, 0, 0, 255, 0, 0, 0, 255, 0, 0, 0, 255 :: 8 word]\<rparr>"
  have wf: "wf_image ?img" by (simp add: wf_image_def)
  have ext: "allPixels extremePixel ?img"
    by (simp add: allPixels_def extremePixel_def upt_rec)
  have rep: "replicate 2 (replicate 2 (Some [SPACE])) = [[Some [SPACE], Some [SPACE]], [Some [SPACE], Some [SPACE]]]"
    by (simp add: numeral_2_eq_2)
  show ?thesis
    using C5_extreme_raster_blank[OF wf _ _ ext, of _ 2 2] by (simp add: rep)
qed

section \<open>Glyph indices\<close>

lemma charAt_int:
  assumes "0 \<le> k" "k < int (length cs)"
  shows "charAt cs (Num (of_int k)) = Some [cs ! nat k]"
proof -
  have "real_of_int k < real (length cs)"
    using assms(2) by (metis of_int_less_iff of_int_of_nat_eq)
  then show ?thesis using assms(1) by (simp add: charAt_def)
qed

lemma combinedCharIndex_range:
  assumes "3 \<le> length cs" "0 \<le> e" "e \<le> 255" "0 \<le> l" "l \<le> 255"
  shows "\<exists>k. combinedCharIndex cs (Num e) l = Num (of_int k) \<and> 1 \<le> k \<and> k \<le> int (length cs) - 2"
proof -
  define c where "c = (e * 0.7 + l * 0.3) / 255"
  define n where "n = int (length cs) - 3"
  have n: "0 \<le> n" using assms(1) by (simp add: n_def)
  have c0: "0 \<le> c" using assms by (simp add: c_def)
  have c1: "c \<le> 1" using assms by (simp add: c_def)
  have lo: "0 \<le> \<lfloor>c * of_int n\<rfloor>" using c0 n by simp
  have "c * of_int n \<le> 1 * of_int n"
    using c1 n by (intro mult_right_mono) auto
  then have "\<lfloor>c * of_int n\<rfloor> \<le> \<lfloor>(of_int n :: real)\<rfloor>"
    by (intro floor_mono) simp
  then have hi: "\<lfloor>c * of_int n\<rfloor> \<le> n" by simp
  have "combinedCharIndex cs (Num e) l = Num (of_int (\<lfloor>c * of_int n\<rfloor> + 1))"
    by (simp add: combinedCharIndex_def Let_def c_def n_def)
  then show ?thesis using lo hi n_def by (intro exI[where x = "\<lfloor>c * of_int n\<rfloor> + 1"]) auto
qed

lemma brightnessCharIndex_range:
  assumes "3 \<le> length cs" "0 \<le> l" "l \<le> 250"
  shows "1 \<le> brightnessCharIndex cs l" "brightnessCharIndex cs l \<le> int (length cs) - 2"
proof -
  define n where "n = int (length cs) - 2"
  have n: "1 \<le> n" using assms(1) by (simp add: n_def)
  have "0 \<le> l / 255 * of_int n" using assms(2) n by simp
  then have lo: "0 \<le> \<lfloor>l / 255 * of_int n\<rfloor>" by simp
  have "l / 255 < 1" using assms(3) by simp
  then have "l / 255 * of_int n < 1 * of_int n"
    using n by (intro mult_strict_right_mono) auto
  then have "\<lfloor>l / 255 * of_int n\<rfloor> < n" by (simp add: floor_less_iff)
  then show "1 \<le> brightnessCharIndex cs l" "brightnessCharIndex cs l \<le> int (length cs) - 2"
    using lo by (simp_all add: brightnessCharIndex_def n_def)
qed


lemma not_suppressed_range:
  "\<not> suppressed s \<Longrightarrow> 5 \<le> meanBrightness s \<and> meanBrightness s \<le> 250 \<and> \<not> isExtreme s"
  by (auto simp: suppressed_def)

text \<open>
  Claim C2.  For a cell that is not suppressed (so that its mean luminance lies in
  [5, 250]), a mean edge strength in [0, 255] and a character set of length at least 3,
  the edge-combined index and the brightness-only index are integers from 1 to
  \<open>len - 2\<close>, and indexing the character set with them yields a glyph: position 0 and the
  last position are never selected.
\<close>

theorem C2_glyph_index_in_range:
  assumes "3 \<le> length cs" "\<not> suppressed s" "meanEdge s = Num e" "0 \<le> e" "e \<le> 255"
  shows "(\<exists>k. combinedCharIndex cs (meanEdge s) (meanBrightness s) = Num (of_int k) \<and>
             1 \<le> k \<and> k \<le> int (length cs) - 2 \<and>
             charAt cs (combinedCharIndex cs (meanEdge s) (meanBrightness s)) = Some [cs ! nat k]) \<and>
         1 \<le> brightnessCharIndex cs (meanBrightness s) \<and>
         brightnessCharIndex cs (meanBrightness s) \<le> int (length cs) - 2 \<and>
         charAt cs (Num (of_int (brightnessCharIndex cs (meanBrightness s))))
           = Some [cs ! nat (brightnessCharIndex cs (meanBrightness s))]"
proof -
  have l: "5 \<le> meanBrightness s" "meanBrightness s \<le> 250"
    using not_suppressed_range[OF assms(2)] by auto
  obtain k where k: "combinedCharIndex cs (Num e) (meanBrightness s) = Num (of_int k)"
      "1 \<le> k" "k \<le> int (length cs) - 2"
    using combinedCharIndex_range[OF assms(1,4,5), of "meanBrightness s"] l by auto
  have "charAt cs (Num (of_int k)) = Some [cs ! nat k]"
    using k(2,3) by (intro charAt_int) auto
  then have edge: "\<exists>k. combinedCharIndex cs (meanEdge s) (meanBrightness s) = Num (of_int k) \<and>
             1 \<le> k \<and> k \<le> int (length cs) - 2 \<and>
             charAt cs (combinedCharIndex cs (meanEdge s) (meanBrightness s)) = Some [cs ! nat k]"
    using k assms(3) by auto
  have b: "1 \<le> brightnessCharIndex cs (meanBrightness s)"
      "brightnessCharIndex cs (meanBrightness s) \<le> int (length cs) - 2"
    using brightnessCharIndex_range[OF assms(1), of "meanBrightness s"] l by auto
  then have "charAt cs (Num (of_int (brightnessCharIndex cs (meanBrightness s))))
           = Some [cs ! nat (brightnessCharIndex cs (meanBrightness s))]"
    by (intro charAt_int) auto
  then show ?thesis using edge b by blast
qed

theorem C2_glyph_index_in_range_witness:
  "3 \<le> length [64, 37, 35, 42, 43, 61, 45, 58, 46, 32 :: 16 word] \<and>
   \<not> suppressed \<lparr>edgeStrength = Num 510, brightness = 500, pixelCount = 2, isExtreme = False,
                  totalR = 0, totalG = 0, totalB = 0\<rparr> \<and>
   meanEdge \<lparr>edgeStrength = Num 510, brightness = 500, pixelCount = 2, isExtreme = False,
                  totalR = 0, totalG = 0, totalB = 0\<rparr> = Num 255 \<and>
   (\<exists>k. combinedCharIndex [64, 37, 35, 42, 43, 61, 45, 58, 46, 32] (Num 255) 250 = Num (of_int k) \<and>
        1 \<le> k \<and> k \<le> 8) \<and>
   1 \<le> brightnessCharIndex [64, 37, 35, 42, 43, 61, 45, 58, 46, 32] 250 \<and>
   brightnessCharIndex [64, 37, 35, 42, 43, 61, 45, 58, 46, 32] 250 \<le> 8"
proof -
  let ?cs = "[64, 37, 35, 42, 43, 61, 45, 58, 46, 32 :: 16 word]"
  let ?s = "\<lparr>edgeStrength = Num 510, brightness = 500, pixelCount = 2, isExtreme = False,
                  totalR = 0, totalG = 0, totalB = 0\<rparr>"
  have h1: "3 \<le> length ?cs" by simp
  have h2: "\<not> suppressed ?s" by (simp add: suppressed_def meanBrightness_def)
  have h3: "meanEdge ?s = Num 255" by (simp add: meanEdge_def)
  have mb: "meanBrightness ?s = 250" by (simp add: meanBrightness_def)
  show ?thesis
    using C2_glyph_index_in_range[OF h1 h2 h3] h1 h2 h3 unfolding mb h3 by auto
qed

section \<open>Uniformly gray rasters\<close>






section \<open>Edge-strength normalisation\<close>

lemma magnitude_nonneg: "0 \<le> magnitude f y x"
  by (simp add: magnitude_def split: prod.splits)

lemma magAt_nonneg: "0 \<le> magAt f h w i j"
  by (simp add: magAt_def magnitude_nonneg)

lemma sobelField_eq:
  "sobelField f h w = map (\<lambda>i. map (\<lambda>j. Num (magAt f h w i j)) [0..<w]) [0..<h]"
  unfolding sobelField_def magAt_def by (subst grid_fill) auto

lemma fold_jmax2_Num:
  "fold (\<lambda>x m. jmax2 m x) (map Num xs) (Num a) = Num (fold max xs a)"
  by (induction xs arbitrary: a) (simp_all add: max.commute)

lemma Math_max_Num:
  assumes "xs \<noteq> []"
  shows "Math_max (map Num xs) = Num (Max (set xs))"
proof -
  obtain x xs' where xs: "xs = x # xs'" using assms by (cases xs) auto
  have "Math_max (map Num xs) = Num (fold max xs' x)"
    by (simp add: Math_max_def xs fold_jmax2_Num)
  also have "fold max xs' x = Max (set xs)"
    unfolding xs by (rule Max.set_eq_fold[symmetric])
  finally show ?thesis .
qed

lemma Math_max_empty: "Math_max [] = NegInf"
  by (simp add: Math_max_def)

text \<open>The maximum that the normalisation divides by, for a field with at least one sample.\<close>

lemma maxMagnitude_Num:
  assumes "0 < h" "0 < w"
  shows "\<exists>mx. Math_max (map Math_max (map (\<lambda>i. map (\<lambda>j. Num (g i j)) [0..<w]) [0..<h])) = Num mx \<and>
              (\<forall>i<h. \<forall>j<w. g i j \<le> mx) \<and> (\<exists>i<h. \<exists>j<w. g i j = mx)"
proof -
  define rowmax where "rowmax i = Max (set (map (g i) [0..<w]))" for i
  have row: "Math_max (map (\<lambda>j. Num (g i j)) [0..<w]) = Num (rowmax i)" for i
  proof -
    have "map (\<lambda>j. Num (g i j)) [0..<w] = map Num (map (g i) [0..<w])" by simp
    moreover have "map (g i) [0..<w] \<noteq> []" using assms(2) by simp
    ultimately show ?thesis unfolding rowmax_def using Math_max_Num by metis
  qed
  have "map Math_max (map (\<lambda>i. map (\<lambda>j. Num (g i j)) [0..<w]) [0..<h]) = map Num (map rowmax [0..<h])"
    by (simp add: row)
  moreover have ne: "map rowmax [0..<h] \<noteq> []" using assms(1) by simp
  ultimately have eq: "Math_max (map Math_max (map (\<lambda>i. map (\<lambda>j. Num (g i j)) [0..<w]) [0..<h]))
      = Num (Max (set (map rowmax [0..<h])))"
    using Math_max_Num by metis
  define mx where "mx = Max (set (map rowmax [0..<h]))"
  have rm_ge: "g i j \<le> rowmax i" if "j < w" for i j
    unfolding rowmax_def using that by (intro Max_ge) auto
  have rm_in: "\<exists>j<w. g i j = rowmax i" for i
  proof -
    have "rowmax i \<in> set (map (g i) [0..<w])"
      unfolding rowmax_def using assms(2) by (intro Max_in) auto
    then show ?thesis by auto
  qed
  have mx_ge: "rowmax i \<le> mx" if "i < h" for i
    unfolding mx_def using that by (intro Max_ge) auto
  have "mx \<in> set (map rowmax [0..<h])"
    unfolding mx_def using ne by (intro Max_in) auto
  then obtain i where i: "i < h" "rowmax i = mx" by auto
  obtain j where j: "j < w" "g i j = rowmax i" using rm_in by blast
  have a: "\<forall>i<h. \<forall>j<w. g i j \<le> mx"
  proof (intro allI impI)
    fix i j assume "i < h" "j < w"
    then show "g i j \<le> mx" using rm_ge[of j i] mx_ge[of i] by linarith
  qed
  have b: "\<exists>i<h. \<exists>j<w. g i j = mx" using i j by auto
  have c: "Math_max (map Math_max (map (\<lambda>i. map (\<lambda>j. Num (g i j)) [0..<w]) [0..<h])) = Num mx"
    using eq by (simp only: mx_def)
  show ?thesis by (intro exI[of _ mx] conjI) (fact c a b)+
qed

lemma normalize_eq:
  "normalize (map (\<lambda>i. map (\<lambda>j. Num (g i j)) [0..<w]) [0..<h]) h w =
     map (\<lambda>i. map (\<lambda>j. jmul (jdiv (Num (g i j))
            (Math_max (map Math_max (map (\<lambda>i. map (\<lambda>j. Num (g i j)) [0..<w]) [0..<h])))) (Num 255)) [0..<w]) [0..<h]"
proof -
  let ?a = "map (\<lambda>i. map (\<lambda>j. Num (g i j)) [0..<w]) [0..<h]"
  let ?m = "Math_max (map Math_max ?a)"
  have "for_range 0 h (\<lambda>y. for_range 0 w (\<lambda>x r. set2 r y x ((\<lambda>_ _ v. jmul (jdiv v ?m) (Num 255)) y x (r ! y ! x)))) ?a
      = map (\<lambda>i. map (\<lambda>j. if 0 \<le> i \<and> i < h \<and> 0 \<le> j \<and> j < w
                          then (\<lambda>_ _ v. jmul (jdiv v ?m) (Num 255)) i j (?a ! i ! j) else ?a ! i ! j) [0..<w]) [0..<h]"
    by (intro grid_loop rect_map) auto
  then show ?thesis
    unfolding normalize_def Let_def by (simp cong: map_cong)
qed

lemma cannyEdgeDetection_cases:
  assumes "rect h w f" "0 < h" "0 < w"
  shows "\<exists>mx. 0 \<le> mx \<and> (\<forall>i<h. \<forall>j<w. magAt f h w i j \<le> mx) \<and> (\<exists>i<h. \<exists>j<w. magAt f h w i j = mx) \<and>
           cannyEdgeDetection f =
             Inr (map (\<lambda>i. map (\<lambda>j. if mx = 0 then NaN else Num (magAt f h w i j / mx * 255)) [0..<w]) [0..<h])"
proof -
  obtain mx where mx: "Math_max (map Math_max (map (\<lambda>i. map (\<lambda>j. Num (magAt f h w i j)) [0..<w]) [0..<h])) = Num mx"
      "\<forall>i<h. \<forall>j<w. magAt f h w i j \<le> mx" "\<exists>i<h. \<exists>j<w. magAt f h w i j = mx"
    using maxMagnitude_Num[OF assms(2,3), of "magAt f h w"] by blast
  have nn: "0 \<le> mx" using mx(3) magAt_nonneg by metis
  have zero: "magAt f h w i j = 0" if "mx = 0" "i < h" "j < w" for i j
    using mx(2) that magAt_nonneg[of f h w i j] by (metis order_antisym)
  have cell: "jmul (jdiv (Num (magAt f h w i j)) (Num mx)) (Num 255)
            = (if mx = 0 then NaN else Num (magAt f h w i j / mx * 255))" if "i < h" "j < w" for i j
    using zero[OF _ that] by simp
  have "cannyEdgeDetection f =
          Inr (map (\<lambda>i. map (\<lambda>j. jmul (jdiv (Num (magAt f h w i j)) (Num mx)) (Num 255)) [0..<w]) [0..<h])"
    unfolding cannyEdgeDetection_rect[OF assms(1,2)] sobelField_eq normalize_eq mx(1) ..
  also have "map (\<lambda>i. map (\<lambda>j. jmul (jdiv (Num (magAt f h w i j)) (Num mx)) (Num 255)) [0..<w]) [0..<h]
           = map (\<lambda>i. map (\<lambda>j. if mx = 0 then NaN else Num (magAt f h w i j / mx * 255)) [0..<w]) [0..<h]"
    using cell by (intro map_cong refl) auto
  finally have eq: "cannyEdgeDetection f =
      Inr (map (\<lambda>i. map (\<lambda>j. if mx = 0 then NaN else Num (magAt f h w i j / mx * 255)) [0..<w]) [0..<h])" .
  show ?thesis by (intro exI[of _ mx] conjI) (fact nn mx(2) mx(3) eq)+
qed

lemma canny_nondegenerate:
  assumes "rect h w f" "0 < h" "0 < w" "i0 < h" "j0 < w" "magAt f h w i0 j0 \<noteq> 0"
  shows "\<exists>edges. cannyEdgeDetection f = Inr edges \<and> Math_max (map Math_max edges) = Num 255 \<and>
           (\<forall>i<h. \<forall>j<w. \<exists>v. edges ! i ! j = Num v \<and> 0 \<le> v \<and> v \<le> 255)"
proof -
  obtain mx where mx: "0 \<le> mx" "\<forall>i<h. \<forall>j<w. magAt f h w i j \<le> mx" "\<exists>i<h. \<exists>j<w. magAt f h w i j = mx"
    and eq: "cannyEdgeDetection f =
             Inr (map (\<lambda>i. map (\<lambda>j. if mx = 0 then NaN else Num (magAt f h w i j / mx * 255)) [0..<w]) [0..<h])"
    using cannyEdgeDetection_cases[OF assms(1-3)] by blast
  have "0 < magAt f h w i0 j0" using assms(6) magAt_nonneg[of f h w i0 j0] by linarith
  then have pos: "0 < mx" using mx(2) assms(4,5) by (meson less_le_trans)
  let ?g = "\<lambda>i j. magAt f h w i j / mx * 255"
  let ?e = "map (\<lambda>i. map (\<lambda>j. Num (?g i j)) [0..<w]) [0..<h]"
  have eq': "cannyEdgeDetection f = Inr ?e" using eq pos by simp
  have rng: "0 \<le> ?g i j \<and> ?g i j \<le> 255" if "i < h" "j < w" for i j
    using mx(2) that pos magAt_nonneg[of f h w i j] by (simp add: field_simps)
  obtain m where m: "Math_max (map Math_max ?e) = Num m"
      "\<forall>i<h. \<forall>j<w. ?g i j \<le> m" "\<exists>i<h. \<exists>j<w. ?g i j = m"
    using maxMagnitude_Num[OF assms(2,3), of ?g] by blast
  obtain i1 j1 where top: "i1 < h" "j1 < w" "magAt f h w i1 j1 = mx" using mx(3) by blast
  have "?g i1 j1 = 255" using top(3) pos by simp
  then have "255 \<le> m" using m(2) top(1,2) by metis
  moreover have "m \<le> 255" using m(3) rng by metis
  ultimately have "m = 255" by simp
  then have mm: "Math_max (map Math_max ?e) = Num 255" using m(1) by simp
  have pt: "\<forall>i<h. \<forall>j<w. \<exists>v. ?e ! i ! j = Num v \<and> 0 \<le> v \<and> v \<le> 255"
    using rng by simp
  show ?thesis by (intro exI[of _ ?e] conjI) (fact eq' mm pt)+
qed

lemma canny_degenerate:
  assumes "rect h w f" "0 < h" "0 < w" "\<forall>i<h. \<forall>j<w. magAt f h w i j = 0"
  shows "cannyEdgeDetection f = Inr (replicate h (replicate w NaN))"
proof -
  obtain mx where mx: "\<exists>i<h. \<exists>j<w. magAt f h w i j = mx"
    and eq: "cannyEdgeDetection f =
             Inr (map (\<lambda>i. map (\<lambda>j. if mx = 0 then NaN else Num (magAt f h w i j / mx * 255)) [0..<w]) [0..<h])"
    using cannyEdgeDetection_cases[OF assms(1-3)] by blast
  have "mx = 0" using mx assms(4) by auto
  then show ?thesis using eq by (simp add: map_replicate_const)
qed


text \<open>
  Claim C3 holds for a field with a nonzero gradient (lemma \<open>canny_nondegenerate\<close>: the
  greatest normalised sample is 255), but not for a flat one: the division by the maximum
  is not guarded, so every sample becomes \<open>0 / 0 * 255\<close>, which is \<open>NaN\<close> and not 0
  (lemma \<open>canny_degenerate\<close>).  The theorem evaluates the function on the 3 by 3 field of
  zeros, and the edge-aware converter on a one-pixel gray frame, whose glyph is then
  \<open>undefined\<close>.
\<close>

theorem C3_flat_field_gives_NaN:
  "cannyEdgeDetection [[0, 0, 0], [0, 0, 0], [0, 0, 0]]
     = Inr [[NaN, NaN, NaN], [NaN, NaN, NaN], [NaN, NaN, NaN]] \<and>
   imageToAscii \<lparr>outputWidth = 1, outputHeight = 1, charSet = [64, 37, 35, 42, 43, 61, 45, 58, 46, 32],
                   preserveAspectRatio = False\<rparr>
     \<lparr>width = 1, height = 1, pixels = [128, 128, 128, 255]\<rparr> 1 1 = Inr [[None]]"
  by (simp add: cannyEdgeDetection_def normalize_def sobelField_def magnitude_def gradient_def
      Math_max_def for_range_def set2_def sobelX_def sobelY_def upt_rec
      imageToAscii_def grayscale_def gaussianBlur_def asciiCell_def sampleBlock_def sampleEdge_def
      sample0_def suppressed_def meanBrightness_def meanEdge_def luma_def extremePixel_def
      combinedCharIndex_def charAt_def Let_def)

section \<open>The suppression rule\<close>








section \<open>Edge strength of a uniformly gray raster\<close>




















end
